theory Spec2Isabelle
  imports Main "HOL-Library.AList"
begin

section \<open>Data model\<close>

text \<open>
  The access keys that \<open>split_path\<close> produces are Python values of type
  \<open>Union[str, int]\<close>: a name (\<open>Key\<close>) or an integer (\<open>Index\<close>). The same values
  are the keys of the dictionaries of the tree.
\<close>

datatype key = Key string | Index int

text \<open>
  The nested data a \<open>Cut\<close> wraps: dictionaries (association lists in insertion order,
  read with \<open>map_of\<close> and written with \<open>AList.update\<close>), lists, and the scalars \<open>str\<close>,
  \<open>int\<close>, \<open>bool\<close> and \<open>None\<close>. The data is a tree: no object is shared between two
  places of it.

  A \<open>string\<close> is a Python \<open>str\<close> read as its sequence of code points: the character
  with code \<open>n\<close> is the code point \<open>n\<close>. The type has the 256 code points below
  \<open>U+0100\<close>; a \<open>str\<close> with any other character is outside the model.
\<close>

datatype py_val =
    PDict "(key \<times> py_val) list"
  | PList "py_val list"
  | PStr string
  | PInt int
  | PBool bool
  | PNone

datatype exc_class =
  KeyError | IndexError | TypeError | ValueError | AttributeError | OverflowError

text \<open>
  The exceptions of the module. \<open>Builtin\<close> is an exception raised by the interpreter itself
  (a \<open>KeyError\<close> carries the key that was looked up, the others carry no key); \<open>Wrapped c k p\<close>
  is an exception of class \<open>c\<close> built by \<open>key_error\<close>, \<open>index_error\<close>, \<open>type_error\<close> or by
  \<open>traverse\<close>, whose message names the failing key \<open>k\<close> and the original path \<open>p\<close>;
  \<open>IndexMustBeInteger\<close> and \<open>MissingBrackets\<close> are the two \<open>ValueError\<close>s of the parser.
\<close>

datatype py_error =
    Builtin exc_class "key option"
  | Wrapped exc_class key string
  | IndexMustBeInteger string string
  | MissingBrackets string

fun exc_class_of :: "py_error \<Rightarrow> exc_class" where
  "exc_class_of (Builtin c _) = c"
| "exc_class_of (Wrapped c _ _) = c"
| "exc_class_of (IndexMustBeInteger _ _) = ValueError"
| "exc_class_of (MissingBrackets _) = ValueError"

definition key_error :: "key \<Rightarrow> string \<Rightarrow> py_error" where
  "key_error failing_key original_path = Wrapped KeyError failing_key original_path"

definition index_error :: "key \<Rightarrow> string \<Rightarrow> py_error" where
  "index_error failing_key original_path = Wrapped IndexError failing_key original_path"

definition type_error :: "key \<Rightarrow> string \<Rightarrow> py_error" where
  "type_error failing_key original_path = Wrapped TypeError failing_key original_path"

definition missing_brackets_error :: "string \<Rightarrow> py_error" where
  "missing_brackets_error k = MissingBrackets k"

definition index_must_be_integer_error :: "string \<Rightarrow> string \<Rightarrow> py_error" where
  "index_must_be_integer_error index path = IndexMustBeInteger index path"

section \<open>The Python primitives the module uses\<close>

subsection \<open>\<open>str.split\<close> and \<open>int\<close>\<close>

text \<open>
  \<open>s.split(sep)\<close> for a non-empty separator: the pieces between the non-overlapping
  occurrences of \<open>sep\<close>, scanned from the left. \<open>acc\<close> is the piece being read.
\<close>

function split_from :: "string \<Rightarrow> string \<Rightarrow> string \<Rightarrow> string list" where
  "split_from sep acc [] = [acc]"
| "split_from sep acc (c # cs) =
     (if sep \<noteq> [] \<and> take (length sep) (c # cs) = sep
      then acc # split_from sep [] (drop (length sep) (c # cs))
      else split_from sep (acc @ [c]) cs)"
  by pat_completeness auto
termination
  by (relation "measure (\<lambda>(sep, acc, s). length s)") auto

definition str_split :: "string \<Rightarrow> string \<Rightarrow> string list" where
  "str_split sep s = split_from sep [] s"

text \<open>
  \<open>int(s)\<close> on a \<open>str\<close>, as \<open>Some\<close> of the value, or \<open>None\<close> for \<open>ValueError\<close>, as CPython
  computes it in base 10. Whitespace around the literal is dropped: the six characters
  tab, line feed, vertical tab, form feed, carriage return and space, and, of the code
  points from \<open>U+007F\<close> on, those that are Unicode whitespace, which below \<open>U+0100\<close> are
  \<open>U+0085\<close> and \<open>U+00A0\<close> (the separators \<open>U+001C\<close> to \<open>U+001F\<close> are not dropped). Then
  one sign is allowed, and the digits \<open>0\<close> to \<open>9\<close> (no other code point below \<open>U+0100\<close> is
  a decimal digit), which single underscores may group. A literal of more than
  \<open>int_max_str_digits\<close> digits is refused; 4300 is the interpreter's default for that
  limit.
\<close>

definition int_whitespace :: "char \<Rightarrow> bool" where
  "int_whitespace c = (of_char c \<in> {9, 10, 11, 12, 13, 32, 133, 160 :: nat})"

definition py_strip :: "string \<Rightarrow> string" where
  "py_strip s = rev (dropWhile int_whitespace (rev (dropWhile int_whitespace s)))"

definition int_max_str_digits :: nat where
  "int_max_str_digits = 4300"

definition digit_val :: "char \<Rightarrow> int option" where
  "digit_val c =
     (let n = (of_char c :: nat) in if 48 \<le> n \<and> n \<le> 57 then Some (int n - 48) else None)"

fun py_digits :: "int \<Rightarrow> string \<Rightarrow> int option" where
  "py_digits acc [] = Some acc"
| "py_digits acc [c] =
     (case digit_val c of None \<Rightarrow> None | Some n \<Rightarrow> Some (10 * acc + n))"
| "py_digits acc (c # d # ds) =
     (if c = CHR ''_''
      then (case digit_val d of None \<Rightarrow> None | Some n \<Rightarrow> py_digits (10 * acc + n) ds)
      else (case digit_val c of None \<Rightarrow> None | Some n \<Rightarrow> py_digits (10 * acc + n) (d # ds)))"

definition py_unsigned :: "string \<Rightarrow> int option" where
  "py_unsigned s =
     (case s of [] \<Rightarrow> None
      | c # cs \<Rightarrow>
          (case digit_val c of
             None \<Rightarrow> None
           | Some n \<Rightarrow>
               if int_max_str_digits < length (filter (\<lambda>c. digit_val c \<noteq> None) s) then None
               else py_digits n cs))"

definition py_int :: "string \<Rightarrow> int option" where
  "py_int s =
     (case py_strip s of [] \<Rightarrow> None
      | c # cs \<Rightarrow>
          if c = CHR ''-'' then map_option uminus (py_unsigned cs)
          else if c = CHR ''+'' then py_unsigned cs
          else py_unsigned (c # cs))"

subsection \<open>Subscription, item assignment, item deletion and \<open>pop\<close>\<close>

text \<open>
  A list index \<open>i\<close> addresses position \<open>i\<close> when \<open>0 \<le> i < len\<close> and position \<open>len + i\<close>
  when \<open>-len \<le> i < 0\<close>; any other index is out of range.
\<close>

definition norm_index :: "nat \<Rightarrow> int \<Rightarrow> nat option" where
  "norm_index n i =
     (if 0 \<le> i \<and> i < int n then Some (nat i)
      else if i < 0 \<and> - int n \<le> i then Some (nat (int n + i))
      else None)"

text \<open>\<open>container[k]\<close>.\<close>

fun py_getitem :: "py_val \<Rightarrow> key \<Rightarrow> py_error + py_val" where
  "py_getitem (PDict d) k =
     (case map_of d k of None \<Rightarrow> Inl (Builtin KeyError (Some k)) | Some v \<Rightarrow> Inr v)"
| "py_getitem (PList xs) (Index i) =
     (case norm_index (length xs) i of
        None \<Rightarrow> Inl (Builtin IndexError None) | Some j \<Rightarrow> Inr (xs ! j))"
| "py_getitem (PList xs) (Key s) = Inl (Builtin TypeError None)"
| "py_getitem (PStr s) (Index i) =
     (case norm_index (length s) i of
        None \<Rightarrow> Inl (Builtin IndexError None) | Some j \<Rightarrow> Inr (PStr [s ! j]))"
| "py_getitem (PStr s) (Key n) = Inl (Builtin TypeError None)"
| "py_getitem (PInt n) k = Inl (Builtin TypeError None)"
| "py_getitem (PBool b) k = Inl (Builtin TypeError None)"
| "py_getitem PNone k = Inl (Builtin TypeError None)"

text \<open>\<open>container[k] = v\<close>, returning the container after the assignment.\<close>

fun py_setitem :: "py_val \<Rightarrow> key \<Rightarrow> py_val \<Rightarrow> py_error + py_val" where
  "py_setitem (PDict d) k v = Inr (PDict (AList.update k v d))"
| "py_setitem (PList xs) (Index i) v =
     (case norm_index (length xs) i of
        None \<Rightarrow> Inl (Builtin IndexError None) | Some j \<Rightarrow> Inr (PList (xs[j := v])))"
| "py_setitem (PList xs) (Key s) v = Inl (Builtin TypeError None)"
| "py_setitem (PStr s) k v = Inl (Builtin TypeError None)"
| "py_setitem (PInt n) k v = Inl (Builtin TypeError None)"
| "py_setitem (PBool b) k v = Inl (Builtin TypeError None)"
| "py_setitem PNone k v = Inl (Builtin TypeError None)"

text \<open>\<open>del container[k]\<close>, returning the container after the deletion.\<close>

fun py_delitem :: "py_val \<Rightarrow> key \<Rightarrow> py_error + py_val" where
  "py_delitem (PDict d) k =
     (case map_of d k of
        None \<Rightarrow> Inl (Builtin KeyError (Some k)) | Some v \<Rightarrow> Inr (PDict (AList.delete k d)))"
| "py_delitem (PList xs) (Index i) =
     (case norm_index (length xs) i of
        None \<Rightarrow> Inl (Builtin IndexError None)
      | Some j \<Rightarrow> Inr (PList (take j xs @ drop (Suc j) xs)))"
| "py_delitem (PList xs) (Key s) = Inl (Builtin TypeError None)"
| "py_delitem (PStr s) k = Inl (Builtin TypeError None)"
| "py_delitem (PInt n) k = Inl (Builtin TypeError None)"
| "py_delitem (PBool b) k = Inl (Builtin TypeError None)"
| "py_delitem PNone k = Inl (Builtin TypeError None)"

text \<open>
  \<open>container.pop(k)\<close> with one argument, returning the container after the call and the
  value popped. Only dictionaries and lists have a \<open>pop\<close> method. \<open>list.pop\<close> converts
  its argument to a machine index first (64 bits, signed) and raises \<open>OverflowError\<close> when
  it does not fit; subscription, assignment and deletion raise \<open>IndexError\<close> for such an
  index.
\<close>

fun py_pop :: "py_val \<Rightarrow> key \<Rightarrow> py_error + (py_val \<times> py_val)" where
  "py_pop (PDict d) k =
     (case map_of d k of
        None \<Rightarrow> Inl (Builtin KeyError (Some k))
      | Some v \<Rightarrow> Inr (PDict (AList.delete k d), v))"
| "py_pop (PList xs) (Index i) =
     (if i < - (2 ^ 63) \<or> 2 ^ 63 \<le> i then Inl (Builtin OverflowError None)
      else
        (case norm_index (length xs) i of
           None \<Rightarrow> Inl (Builtin IndexError None)
         | Some j \<Rightarrow> Inr (PList (take j xs @ drop (Suc j) xs), xs ! j)))"
| "py_pop (PList xs) (Key s) = Inl (Builtin TypeError None)"
| "py_pop (PStr s) k = Inl (Builtin AttributeError None)"
| "py_pop (PInt n) k = Inl (Builtin AttributeError None)"
| "py_pop (PBool b) k = Inl (Builtin AttributeError None)"
| "py_pop PNone k = Inl (Builtin AttributeError None)"

section \<open>The path parser\<close>

text \<open>
  The loop of \<open>split_indexes\<close> over the pieces that follow a \<open>[\<close>. The first piece whose body
  (the piece without its last character) \<open>int\<close> rejects ends the loop with a \<open>ValueError\<close>,
  which the handler turns into one of the two parser errors. \<open>path\<close> is the argument of
  \<open>split_indexes\<close>, that is the segment being parsed.
\<close>

fun parse_indexes :: "string \<Rightarrow> string list \<Rightarrow> py_error + key list" where
  "parse_indexes path [] = Inr []"
| "parse_indexes path (str_index # rest) =
     (let index = butlast str_index in
      case py_int index of
        None \<Rightarrow>
          if index \<noteq> [] \<and> CHR '']'' \<notin> set index
          then Inl (index_must_be_integer_error index path)
          else Inl (missing_brackets_error path)
      | Some i \<Rightarrow>
          (case parse_indexes path rest of
             Inl e \<Rightarrow> Inl e
           | Inr ks \<Rightarrow> Inr (Index i # ks)))"

text \<open>
  \<open>split_indexes\<close>. The unpacking \<open>key, *str_indexes = path.split("[")\<close> would raise
  \<open>ValueError\<close> on an empty list, which \<open>str.split\<close> never returns.
\<close>

definition split_indexes :: "string \<Rightarrow> py_error + key list" where
  "split_indexes path =
     (case str_split ''['' path of
        [] \<Rightarrow> Inl (Builtin ValueError None)
      | k # str_indexes \<Rightarrow>
          if str_indexes = [] then Inr [Key k]
          else (case parse_indexes path str_indexes of
                  Inl e \<Rightarrow> Inl e
                | Inr ks \<Rightarrow> Inr (Key k # ks)))"

text \<open>The loop of \<open>split_path\<close> over the segments.\<close>

fun split_segments :: "string list \<Rightarrow> py_error + key list" where
  "split_segments [] = Inr []"
| "split_segments (k # ks) =
     (case split_indexes k of
        Inl e \<Rightarrow> Inl e
      | Inr key_and_indexes \<Rightarrow>
          (case split_segments ks of
             Inl e \<Rightarrow> Inl e
           | Inr result \<Rightarrow> Inr (key_and_indexes @ result)))"

text \<open>\<open>path.split(key_separator)\<close> raises \<open>ValueError\<close> for an empty separator.\<close>

definition split_path :: "string \<Rightarrow> string \<Rightarrow> py_error + key list" where
  "split_path path key_separator =
     (if key_separator = [] then Inl (Builtin ValueError None)
      else split_segments (str_split key_separator path))"

section \<open>The navigator\<close>

text \<open>
  \<open>traverse\<close>: the loop \<open>value = value[key]\<close> over the keys, inside a handler that replaces a
  \<open>TypeError\<close> by one that names the key being accessed and the original path. A
  \<open>KeyError\<close> or an \<open>IndexError\<close> of the loop is not handled there.
\<close>

fun traverse :: "py_val \<Rightarrow> key list \<Rightarrow> string \<Rightarrow> py_error + py_val" where
  "traverse v [] original_path = Inr v"
| "traverse v (k # keys) original_path =
     (case py_getitem v k of
        Inl e \<Rightarrow>
          if exc_class_of e = TypeError then Inl (Wrapped TypeError k original_path)
          else Inl e
      | Inr v' \<Rightarrow> traverse v' keys original_path)"

text \<open>
  The methods that change the data in place reach an object by walking down from the root
  and then change that object. In the model an object under the root is a pair of its
  location (the keys that lead to it from the root) and its value; \<open>store data loc new\<close> is
  the data once the object at \<open>loc\<close> has become \<open>new\<close>.
\<close>

type_synonym node = "key list \<times> py_val"

definition node_getitem :: "node \<Rightarrow> key \<Rightarrow> py_error + node" where
  "node_getitem p k =
     (case py_getitem (snd p) k of Inl e \<Rightarrow> Inl e | Inr v \<Rightarrow> Inr (fst p @ [k], v))"

fun store :: "py_val \<Rightarrow> key list \<Rightarrow> py_val \<Rightarrow> py_val" where
  "store v [] new = new"
| "store v (k # ks) new =
     (case py_getitem v k of
        Inl e \<Rightarrow> v
      | Inr child \<Rightarrow>
          (case py_setitem v k (store child ks new) of Inl e \<Rightarrow> v | Inr v' \<Rightarrow> v'))"

text \<open>\<open>*keys, last_key = xs\<close>: unpacking an empty list raises \<open>ValueError\<close>.\<close>

definition unpack_last :: "'a list \<Rightarrow> py_error + ('a list \<times> 'a)" where
  "unpack_last xs = (if xs = [] then Inl (Builtin ValueError None) else Inr (butlast xs, last xs))"

text \<open>
  The loop of \<open>_traverse_list\<close> over all the bracket pieces but the last. A literal that
  \<open>int\<close> rejects raises a \<open>ValueError\<close> that no handler catches; only the \<open>IndexError\<close> of the
  subscription is replaced by \<open>index_error\<close>.
\<close>

fun traverse_indexes :: "node \<Rightarrow> string list \<Rightarrow> string \<Rightarrow> py_error + node" where
  "traverse_indexes parent [] original_path = Inr parent"
| "traverse_indexes parent (str_index # rest) original_path =
     (case py_int (butlast str_index) of
        None \<Rightarrow> Inl (Builtin ValueError None)
      | Some index \<Rightarrow>
          (case node_getitem parent (Index index) of
             Inl e \<Rightarrow>
               if exc_class_of e = IndexError then Inl (index_error (Index index) original_path)
               else Inl e
           | Inr p \<Rightarrow> traverse_indexes p rest original_path))"

text \<open>
  \<open>_traverse_list parent key original_path\<close>: a segment without brackets is returned as it
  is, with the parent untouched. Otherwise the name is looked up in the parent, all the
  indexes but the last are followed, and the last index is returned with the object it
  applies to. A last literal that \<open>int\<close> rejects is reported by \<open>index_error\<close>.
\<close>

definition traverse_list :: "node \<Rightarrow> string \<Rightarrow> string \<Rightarrow> py_error + (node \<times> key)" where
  "traverse_list parent k original_path =
     (case str_split ''['' k of
        [] \<Rightarrow> Inl (Builtin ValueError None)
      | name # str_indexes \<Rightarrow>
          if str_indexes = [] then Inr (parent, Key name)
          else
            (case node_getitem parent (Key name) of
               Inl e \<Rightarrow>
                 if exc_class_of e = KeyError then Inl (key_error (Key name) original_path)
                 else if exc_class_of e = TypeError then Inl (type_error (Key name) original_path)
                 else Inl e
             | Inr p \<Rightarrow>
                 (case traverse_indexes p (butlast str_indexes) original_path of
                    Inl e \<Rightarrow> Inl e
                  | Inr p' \<Rightarrow>
                      (case py_int (butlast (last str_indexes)) of
                         None \<Rightarrow>
                           Inl (index_error (Key (butlast (last str_indexes))) original_path)
                       | Some last_index \<Rightarrow> Inr (p', Index last_index)))))"

text \<open>
  The handlers of \<open>Cut._traverse\<close> around its loop: \<open>KeyError\<close> and \<open>TypeError\<close> become
  \<open>key_error\<close>, \<open>IndexError\<close> becomes \<open>index_error\<close>, each naming \<open>sub_key\<close> as it is when
  the exception is raised; any other exception passes.
\<close>

definition rewrap :: "key \<Rightarrow> string \<Rightarrow> py_error \<Rightarrow> py_error" where
  "rewrap sub_key path e =
     (if exc_class_of e = KeyError then key_error sub_key path
      else if exc_class_of e = IndexError then index_error sub_key path
      else if exc_class_of e = TypeError then key_error sub_key path
      else e)"

fun traverse_segments :: "node \<Rightarrow> string list \<Rightarrow> string \<Rightarrow> py_error + node" where
  "traverse_segments parent [] path = Inr parent"
| "traverse_segments parent (sub_key # rest) path =
     (case traverse_list parent sub_key path of
        Inl e \<Rightarrow> Inl (rewrap (Key sub_key) path e)
      | Inr (p, k) \<Rightarrow>
          (case node_getitem p k of
             Inl e \<Rightarrow> Inl (rewrap k path e)
           | Inr p' \<Rightarrow> traverse_segments p' rest path))"

text \<open>\<open>Cut._traverse\<close>, started at the root of the data.\<close>

definition cut_traverse :: "py_val \<Rightarrow> string \<Rightarrow> string \<Rightarrow> py_error + (node \<times> key)" where
  "cut_traverse data sep path =
     (if sep = [] then Inl (Builtin ValueError None)
      else
        (case unpack_last (str_split sep path) of
           Inl e \<Rightarrow> Inl e
         | Inr (parent_keys, last_key) \<Rightarrow>
             (case traverse_segments ([], data) parent_keys path of
                Inl e \<Rightarrow> Inl e
              | Inr parent \<Rightarrow> traverse_list parent last_key path)))"

section \<open>The methods of \<open>Cut\<close>\<close>


definition cut_delitem :: "py_val \<Rightarrow> string \<Rightarrow> string \<Rightarrow> py_error + py_val" where
  "cut_delitem data sep path =
     (case cut_traverse data sep path of
        Inl e \<Rightarrow> Inl e
      | Inr (parent, last_key) \<Rightarrow>
          (case py_delitem (snd parent) last_key of
             Inl e \<Rightarrow>
               if exc_class_of e = KeyError then Inl (key_error last_key path)
               else if exc_class_of e = IndexError then Inl (index_error last_key path)
               else Inl e
           | Inr parent' \<Rightarrow> Inr (store data (fst parent) parent')))"

definition cut_getitem :: "py_val \<Rightarrow> string \<Rightarrow> string \<Rightarrow> py_error + py_val" where
  "cut_getitem data sep path =
     (case split_path path sep of
        Inl e \<Rightarrow> Inl e
      | Inr ks \<Rightarrow>
          (case unpack_last ks of
             Inl e \<Rightarrow> Inl e
           | Inr (keys, last_key) \<Rightarrow>
               (case traverse data keys path of
                  Inl e \<Rightarrow> Inl e
                | Inr item \<Rightarrow>
                    (case py_getitem item last_key of
                       Inr v \<Rightarrow> Inr v
                     | Inl e \<Rightarrow>
                         if exc_class_of e = KeyError then Inl (key_error last_key path)
                         else if exc_class_of e = IndexError
                         then Inl (index_error last_key path)
                         else Inl e))))"

definition cut_setitem :: "py_val \<Rightarrow> string \<Rightarrow> string \<Rightarrow> py_val \<Rightarrow> py_error + py_val" where
  "cut_setitem data sep path v =
     (case split_path path sep of
        Inl e \<Rightarrow> Inl e
      | Inr ks \<Rightarrow>
          (case unpack_last ks of
             Inl e \<Rightarrow> Inl e
           | Inr (keys, last_key) \<Rightarrow>
               (case traverse data keys path of
                  Inl e \<Rightarrow> Inl e
                | Inr item \<Rightarrow>
                    (case py_setitem item last_key v of
                       Inl e \<Rightarrow>
                         if exc_class_of e = IndexError then Inl (index_error last_key path)
                         else Inl e
                     | Inr item' \<Rightarrow> Inr (store data keys item')))))"

text \<open>
  \<open>get\<close> and \<open>pop\<close> take a default (\<open>dflt\<close>), which is \<open>None\<close> when the caller
  gives none; the test in the code is \<open>default is not None\<close>.
\<close>

definition cut_get :: "py_val \<Rightarrow> string \<Rightarrow> string \<Rightarrow> py_val \<Rightarrow> py_error + py_val" where
  "cut_get data sep path dflt =
     (case cut_getitem data sep path of
        Inr v \<Rightarrow> Inr v
      | Inl e \<Rightarrow>
          if exc_class_of e = KeyError \<or> exc_class_of e = IndexError
          then (if dflt \<noteq> PNone then Inr dflt else Inl e)
          else Inl e)"

text \<open>\<open>pop\<close> returns the data after the call and the value returned to the caller.\<close>

definition cut_pop ::
  "py_val \<Rightarrow> string \<Rightarrow> string \<Rightarrow> py_val \<Rightarrow> py_error + (py_val \<times> py_val)" where
  "cut_pop data sep path dflt =
     (case cut_traverse data sep path of
        Inl e \<Rightarrow>
          if exc_class_of e = KeyError \<or> exc_class_of e = IndexError
          then (if dflt \<noteq> PNone then Inr (data, dflt) else Inl e)
          else Inl e
      | Inr (parent, last_key) \<Rightarrow>
          (case py_pop (snd parent) last_key of
             Inr (parent', v) \<Rightarrow> Inr (store data (fst parent) parent', v)
           | Inl e \<Rightarrow>
               if exc_class_of e = IndexError
               then (if dflt \<noteq> PNone then Inr (data, dflt)
                     else Inl (index_error last_key path))
               else if exc_class_of e = KeyError
               then (if dflt \<noteq> PNone then Inr (data, dflt)
                     else Inl (key_error last_key path))
               else Inl e))"

text \<open>
  The loop of \<open>setdefault\<close> over the parent segments. It changes the data while it walks
  (a missing key gets an empty dictionary), so it returns the data as it is when the loop
  ends or raises, together with the outcome.
\<close>

fun setdefault_walk ::
  "py_val \<Rightarrow> node \<Rightarrow> string list \<Rightarrow> string \<Rightarrow> py_val \<times> (py_error + node)" where
  "setdefault_walk data parent [] path = (data, Inr parent)"
| "setdefault_walk data parent (k # rest) path =
     (case traverse_list parent k path of
        Inl e \<Rightarrow> (data, Inl e)
      | Inr (p, k') \<Rightarrow>
          (case node_getitem p k' of
             Inr p' \<Rightarrow> setdefault_walk data p' rest path
           | Inl e \<Rightarrow>
               if exc_class_of e = KeyError then
                 (case py_setitem (snd p) k' (PDict []) of
                    Inl e' \<Rightarrow> (data, Inl e')
                  | Inr pv \<Rightarrow>
                      setdefault_walk (store data (fst p) pv) (fst p @ [k'], PDict []) rest path)
               else if exc_class_of e = IndexError then (data, Inl (index_error k' path))
               else (data, Inl e)))"

definition cut_setdefault ::
  "py_val \<Rightarrow> string \<Rightarrow> string \<Rightarrow> py_val \<Rightarrow> py_val \<times> (py_error + py_val)" where
  "cut_setdefault data sep path dflt =
     (if sep = [] then (data, Inl (Builtin ValueError None))
      else
        (case unpack_last (str_split sep path) of
           Inl e \<Rightarrow> (data, Inl e)
         | Inr (parent_keys, last_key) \<Rightarrow>
             (case setdefault_walk data ([], data) parent_keys path of
                (data1, Inl e) \<Rightarrow> (data1, Inl e)
              | (data1, Inr parent) \<Rightarrow>
                  (case traverse_list parent last_key path of
                     Inl e \<Rightarrow> (data1, Inl e)
                   | Inr (p, last_key') \<Rightarrow>
                       (case py_getitem (snd p) last_key' of
                          Inr v \<Rightarrow> (data1, Inr v)
                        | Inl e \<Rightarrow>
                            if exc_class_of e = KeyError then
                              (case py_setitem (snd p) last_key' dflt of
                                 Inl e' \<Rightarrow> (data1, Inl e')
                               | Inr pv \<Rightarrow> (store data1 (fst p) pv, Inr dflt))
                            else if exc_class_of e = IndexError
                            then (data1, Inl (index_error last_key' path))
                            else (data1, Inl e))))))"

section \<open>Notions used to state the properties\<close>

text \<open>
  The first bracket piece of a segment whose body \<open>int\<close> rejects, and the first segment
  of a path that has such a piece.
\<close>

definition first_bad_piece :: "string \<Rightarrow> string option" where
  "first_bad_piece seg =
     find (\<lambda>p. py_int (butlast p) = None) (tl (str_split ''['' seg))"

definition first_bad_segment :: "string \<Rightarrow> string \<Rightarrow> string option" where
  "first_bad_segment sep path =
     find (\<lambda>seg. first_bad_piece seg \<noteq> None) (str_split sep path)"


text \<open>
  The failure kinds of a resolution, and the kind of each exception class
  (\<open>AttributeError\<close> and \<open>OverflowError\<close> belong to none of the four kinds).
\<close>

datatype failure_kind = MissingKey | IndexOutOfRange | TypeMismatch | MalformedPath | OtherFailure

fun kind_of_class :: "exc_class \<Rightarrow> failure_kind" where
  "kind_of_class KeyError = MissingKey"
| "kind_of_class IndexError = IndexOutOfRange"
| "kind_of_class TypeError = TypeMismatch"
| "kind_of_class ValueError = MalformedPath"
| "kind_of_class AttributeError = OtherFailure"
| "kind_of_class OverflowError = OtherFailure"

definition outcome :: "py_error + 'a \<Rightarrow> failure_kind + 'a" where
  "outcome r = (case r of Inl e \<Rightarrow> Inl (kind_of_class (exc_class_of e)) | Inr v \<Rightarrow> Inr v)"

text \<open>
  The step application rule, stated on its own (it is compared with the code below):
  a step against a keyed container is a lookup of that key, absent keys giving
  \<open>MissingKey\<close>, whether the step is a name or an integer; an \<open>Index\<close> step against an
  ordered container or a string gives the element at position \<open>i\<close>, counted from the end
  when \<open>i\<close> is negative, and \<open>IndexOutOfRange\<close> outside \<open>[-len, len)\<close>; every other
  combination is a \<open>TypeMismatch\<close>. \<open>resolve_by_rule\<close> applies the rule step by step and
  stops at the first failure.
\<close>

definition in_range :: "nat \<Rightarrow> int \<Rightarrow> bool" where
  "in_range n i = (- int n \<le> i \<and> i < int n)"

fun apply_step :: "py_val \<Rightarrow> key \<Rightarrow> failure_kind + py_val" where
  "apply_step (PDict d) k = (case map_of d k of Some v \<Rightarrow> Inr v | None \<Rightarrow> Inl MissingKey)"
| "apply_step (PList xs) (Index i) =
     (if in_range (length xs) i then Inr (xs ! nat (i mod int (length xs)))
      else Inl IndexOutOfRange)"
| "apply_step (PStr s) (Index i) =
     (if in_range (length s) i then Inr (PStr [s ! nat (i mod int (length s))])
      else Inl IndexOutOfRange)"
| "apply_step v k = Inl TypeMismatch"

fun resolve_by_rule :: "py_val \<Rightarrow> key list \<Rightarrow> failure_kind + py_val" where
  "resolve_by_rule v [] = Inr v"
| "resolve_by_rule v (k # ks) =
     (case apply_step v k of Inl f \<Rightarrow> Inl f | Inr v' \<Rightarrow> resolve_by_rule v' ks)"

text \<open>
  What \<open>__contains__\<close> should answer for a sequence of steps, by the rule above: \<open>True\<close>
  when every step resolves, \<open>False\<close> when every step before the last resolves and the
  last one fails with \<open>MissingKey\<close> or \<open>IndexOutOfRange\<close>, and no answer (an exception)
  in every other case. \<open>answer\<close> reads the same out of a result of the method.
\<close>

definition contains_by_rule :: "py_val \<Rightarrow> key list \<Rightarrow> bool option" where
  "contains_by_rule data steps =
     (case resolve_by_rule data (butlast steps) of
        Inl f \<Rightarrow> None
      | Inr item \<Rightarrow>
          (case apply_step item (last steps) of
             Inr v \<Rightarrow> Some True
           | Inl f \<Rightarrow> if f = MissingKey \<or> f = IndexOutOfRange then Some False else None))"

definition answer :: "py_error + bool \<Rightarrow> bool option" where
  "answer r = (case r of Inl e \<Rightarrow> None | Inr b \<Rightarrow> Some b)"

section \<open>Properties of the parser\<close>

subsection \<open>Splitting\<close>

lemma split_from_chars:
  "set (concat (split_from sep acc s)) \<subseteq> set acc \<union> set s"
proof (induction sep acc s rule: split_from.induct)
  case (1 sep acc)
  then show ?case by simp
next
  case (2 sep acc c cs)
  show ?case
  proof (cases "sep \<noteq> [] \<and> take (length sep) (c # cs) = sep")
    case True
    have "set (drop (length sep) (c # cs)) \<subseteq> set (c # cs)" by (rule set_drop_subset)
    with True 2(1) show ?thesis by auto
  next
    case False
    with 2(2) show ?thesis by auto
  qed
qed

lemma str_split_chars: "seg \<in> set (str_split sep s) \<Longrightarrow> set seg \<subseteq> set s"
  using split_from_chars [of sep "[]" s] by (auto simp: str_split_def)

lemma split_from_nonempty: "split_from sep acc s \<noteq> []"
  by (induction sep acc s rule: split_from.induct) auto

lemma str_split_nonempty: "str_split sep s \<noteq> []"
  by (simp add: str_split_def split_from_nonempty)

lemma split_from_absent: "c \<notin> set s \<Longrightarrow> split_from [c] acc s = [acc @ s]"
  by (induction s arbitrary: acc) auto

lemma split_from_until:
  "c \<notin> set s \<Longrightarrow> split_from [c] acc (s @ c # rest) = (acc @ s) # split_from [c] [] rest"
  by (induction s arbitrary: acc) auto

lemma split_indexes_plain: "CHR ''['' \<notin> set seg \<Longrightarrow> split_indexes seg = Inr [Key seg]"
  by (simp add: split_indexes_def str_split_def split_from_absent)

lemma split_segments_plain:
  "\<forall>seg \<in> set segs. CHR ''['' \<notin> set seg \<Longrightarrow> split_segments segs = Inr (map Key segs)"
  by (induction segs) (simp_all add: split_indexes_plain)

subsection \<open>The first piece that is not an integer decides the outcome\<close>

lemma parse_indexes_find:
  "parse_indexes seg ps =
     (case find (\<lambda>p. py_int (butlast p) = None) ps of
        Some p \<Rightarrow>
          Inl (if butlast p \<noteq> [] \<and> CHR '']'' \<notin> set (butlast p)
               then IndexMustBeInteger (butlast p) seg else MissingBrackets seg)
      | None \<Rightarrow> Inr (map (\<lambda>p. Index (the (py_int (butlast p)))) ps))"
  by (induction ps)
     (auto simp: Let_def index_must_be_integer_error_def missing_brackets_error_def
           split: option.splits sum.splits)

lemma split_indexes_find:
  "split_indexes seg =
     (case first_bad_piece seg of
        Some p \<Rightarrow>
          Inl (if butlast p \<noteq> [] \<and> CHR '']'' \<notin> set (butlast p)
               then IndexMustBeInteger (butlast p) seg else MissingBrackets seg)
      | None \<Rightarrow>
          Inr (Key (hd (str_split ''['' seg))
               # map (\<lambda>p. Index (the (py_int (butlast p)))) (tl (str_split ''['' seg))))"
proof (cases "str_split ''['' seg")
  case Nil
  then show ?thesis using str_split_nonempty [of "''[''" seg] by simp
next
  case (Cons k ps)
  then show ?thesis
    by (cases ps)
       (simp_all add: split_indexes_def first_bad_piece_def parse_indexes_find
             split: option.splits)
qed

lemma split_segments_find:
  "find (\<lambda>seg. first_bad_piece seg \<noteq> None) segs = Some seg \<Longrightarrow>
   split_segments segs = split_indexes seg \<and> isl (split_indexes seg)"
proof (induction segs)
  case Nil
  then show ?case by simp
next
  case (Cons s segs)
  show ?case
  proof (cases "first_bad_piece s")
    case None
    with Cons.prems have "find (\<lambda>seg. first_bad_piece seg \<noteq> None) segs = Some seg" by simp
    then have ih: "split_segments segs = split_indexes seg" "isl (split_indexes seg)"
      using Cons.IH by simp_all
    from None have "\<not> isl (split_indexes s)" by (simp add: split_indexes_find)
    with ih show ?thesis by (auto simp: isl_def split: sum.splits)
  next
    case (Some p)
    with Cons.prems have "seg = s" by simp
    with Some show ?thesis by (simp add: split_indexes_find)
  qed
qed

lemma split_segments_ok:
  "find (\<lambda>seg. first_bad_piece seg \<noteq> None) segs = None \<Longrightarrow>
   \<exists>steps. split_segments segs = Inr steps"
proof (induction segs)
  case Nil
  then show ?case by simp
next
  case (Cons s segs)
  then have "first_bad_piece s = None" by (simp split: if_splits)
  with Cons show ?case by (auto simp: split_indexes_find split: if_splits)
qed


subsection \<open>Paths without brackets\<close>

text \<open>
  Claim C8. For a path without any \<open>[\<close> (and a non-empty separator, which \<open>str.split\<close>
  requires), \<open>split_path\<close> returns one \<open>Key\<close> step per separator-delimited segment, in
  order, each carrying its segment unchanged; and \<open>split_path "a[0][1]" "."\<close> is
  \<open>[Key "a", Index 0, Index 1]\<close>.
\<close>

theorem parse_plain_path:
  "(sep \<noteq> [] \<longrightarrow> CHR ''['' \<notin> set path \<longrightarrow>
      (\<exists>steps. split_path path sep = Inr steps
         \<and> length steps = length (str_split sep path)
         \<and> steps = map Key (str_split sep path)))
   \<and> split_path ''a[0][1]'' ''.'' = Inr [Key ''a'', Index 0, Index 1]"
proof (intro conjI impI)
  assume sep: "sep \<noteq> []" and nb: "CHR ''['' \<notin> set path"
  have "\<forall>seg \<in> set (str_split sep path). CHR ''['' \<notin> set seg"
    using nb str_split_chars by blast
  then have "split_segments (str_split sep path) = Inr (map Key (str_split sep path))"
    by (rule split_segments_plain)
  with sep show "\<exists>steps. split_path path sep = Inr steps
         \<and> length steps = length (str_split sep path)
         \<and> steps = map Key (str_split sep path)"
    by (simp add: split_path_def)
next
  show "split_path ''a[0][1]'' ''.'' = Inr [Key ''a'', Index 0, Index 1]"
    by code_simp
qed

theorem parse_plain_path_witness:
  "split_path ''a.b..c'' ''.'' = Inr [Key ''a'', Key ''b'', Key '''', Key ''c'']
   \<and> length (str_split ''.'' ''a.b..c'') = 4"
  using parse_plain_path [of "''.''" "''a.b..c''"] by (simp add: str_split_def)

subsection \<open>Which error a bad index raises\<close>

text \<open>
  Claim C4. When some bracket piece of a path has a body that \<open>int\<close> rejects,
  \<open>split_path\<close> fails, and the first such piece \<open>p\<close> (in the first segment \<open>seg\<close> that has
  one) decides the error: \<open>IndexMustBeInteger\<close> when the body of \<open>p\<close> is non-empty and
  contains no \<open>]\<close>, \<open>MissingBrackets\<close> otherwise. So \<open>a[x]\<close> gives \<open>IndexMustBeInteger\<close>,
  and \<open>a[0\<close> and \<open>a[]\<close> give \<open>MissingBrackets\<close>; a bad index is never skipped.
\<close>

theorem parse_failure_policy:
  "(sep \<noteq> [] \<longrightarrow> first_bad_segment sep path = Some seg \<longrightarrow> first_bad_piece seg = Some p \<longrightarrow>
      split_path path sep =
        Inl (if butlast p \<noteq> [] \<and> CHR '']'' \<notin> set (butlast p)
             then IndexMustBeInteger (butlast p) seg else MissingBrackets seg))
   \<and> split_path ''a[x]'' ''.'' = Inl (IndexMustBeInteger ''x'' ''a[x]'')
   \<and> split_path ''a[0'' ''.'' = Inl (MissingBrackets ''a[0'')
   \<and> split_path ''a[]'' ''.'' = Inl (MissingBrackets ''a[]'')"
proof (intro conjI impI)
  assume "sep \<noteq> []" and seg: "first_bad_segment sep path = Some seg"
    and p: "first_bad_piece seg = Some p"
  from seg have "split_segments (str_split sep path) = split_indexes seg"
    unfolding first_bad_segment_def using split_segments_find by blast
  with \<open>sep \<noteq> []\<close> p show "split_path path sep =
        Inl (if butlast p \<noteq> [] \<and> CHR '']'' \<notin> set (butlast p)
             then IndexMustBeInteger (butlast p) seg else MissingBrackets seg)"
    by (simp add: split_path_def split_indexes_find)
next
  show "split_path ''a[x]'' ''.'' = Inl (IndexMustBeInteger ''x'' ''a[x]'')" by code_simp
next
  show "split_path ''a[0'' ''.'' = Inl (MissingBrackets ''a[0'')" by code_simp
next
  show "split_path ''a[]'' ''.'' = Inl (MissingBrackets ''a[]'')" by code_simp
qed

theorem parse_failure_policy_witness:
  "first_bad_segment ''.'' ''a.b[1][y]].c[z]'' = Some ''b[1][y]]''
   \<and> first_bad_piece ''b[1][y]]'' = Some ''y]]''
   \<and> split_path ''a.b[1][y]].c[z]'' ''.'' = Inl (MissingBrackets ''b[1][y]]'')"
proof -
  have a: "first_bad_segment ''.'' ''a.b[1][y]].c[z]'' = Some ''b[1][y]]''" by code_simp
  have b: "first_bad_piece ''b[1][y]]'' = Some ''y]]''" by code_simp
  show ?thesis
    using a b parse_failure_policy [of "''.''" "''a.b[1][y]].c[z]''" "''b[1][y]]''" "''y]]''"]
    by simp
qed

subsection \<open>Index literals that are rejected, and negative ones\<close>




section \<open>Properties of the methods\<close>

subsection \<open>Errors of \<open>__getitem__\<close> that name neither key nor path\<close>

text \<open>
  Claim C1. Every \<open>KeyError\<close>, \<open>IndexError\<close> or \<open>TypeError\<close> of a resolution should name the
  original path and the failing key or index. The code does not do so in \<open>__getitem__\<close>:
  on \<open>{"pokemon": [{"level": 1}]}\<close> the path \<open>pokemon[5].level\<close> fails inside \<open>traverse\<close>,
  which handles \<open>TypeError\<close> only, and the caller receives the interpreter's own
  \<open>IndexError\<close>, without index or path. \<open>__delitem__\<close>, which walks with \<open>_traverse\<close>,
  reports the same failure with the index \<open>5\<close> and the path.
\<close>

theorem getitem_unattributed_index_error:
  "cut_getitem (PDict [(Key ''pokemon'', PList [PDict [(Key ''level'', PInt 1)]])])
       ''.'' ''pokemon[5].level''
     = Inl (Builtin IndexError None)
   \<and> cut_delitem (PDict [(Key ''pokemon'', PList [PDict [(Key ''level'', PInt 1)]])])
       ''.'' ''pokemon[5].level''
     = Inl (Wrapped IndexError (Index 5) ''pokemon[5].level'')"
  by (intro conjI; code_simp)

subsection \<open>Defaults of \<open>get\<close> and \<open>pop\<close>\<close>

text \<open>
  Claim C7, as stated, fails on the code: a falsy default is returned, not ignored.
  \<open>get\<close> with default \<open>0\<close> and \<open>pop\<close> with default \<open>""\<close> on a missing key return the
  default.
\<close>

theorem falsy_default_returned:
  "cut_get (PDict []) ''.'' ''a'' (PInt 0) = Inr (PInt 0)
   \<and> cut_pop (PDict []) ''.'' ''a'' (PStr '''') = Inr (PDict [], PStr '''')"
  by (intro conjI; code_simp)

text \<open>
  Claim C7, amended. Only the default \<open>None\<close> counts as no default. When the resolution
  fails with a \<open>KeyError\<close> or an \<open>IndexError\<close>, \<open>get\<close> raises that error again if the
  default is \<open>None\<close> and returns the default otherwise; and where \<open>pop\<close> without a default
  raises a \<open>KeyError\<close> or an \<open>IndexError\<close>, \<open>pop\<close> with any default other than \<open>None\<close>
  returns that default and leaves the data as it was.
\<close>

theorem default_none_reraises:
  "(cut_getitem data sep path = Inl e \<longrightarrow>
      exc_class_of e = KeyError \<or> exc_class_of e = IndexError \<longrightarrow>
      cut_get data sep path dflt = (if dflt = PNone then Inl e else Inr dflt))
   \<and> (cut_pop data sep path PNone = Inl e \<longrightarrow>
      exc_class_of e = KeyError \<or> exc_class_of e = IndexError \<longrightarrow>
      dflt \<noteq> PNone \<longrightarrow>
      cut_pop data sep path dflt = Inr (data, dflt))"
proof (intro conjI impI)
  assume "cut_getitem data sep path = Inl e"
    and "exc_class_of e = KeyError \<or> exc_class_of e = IndexError"
  then show "cut_get data sep path dflt = (if dflt = PNone then Inl e else Inr dflt)"
    by (simp add: cut_get_def)
next
  assume f: "cut_pop data sep path PNone = Inl e"
    and c: "exc_class_of e = KeyError \<or> exc_class_of e = IndexError"
    and d: "dflt \<noteq> PNone"
  show "cut_pop data sep path dflt = Inr (data, dflt)"
  proof (cases "cut_traverse data sep path")
    case (Inl e')
    with f have "e' = e" by (simp add: cut_pop_def split: if_splits)
    with Inl c d show ?thesis by (simp add: cut_pop_def)
  next
    case (Inr r)
    obtain parent last_key where r: "r = (parent, last_key)" by (cases r)
    show ?thesis
    proof (cases "py_pop (snd parent) last_key")
      case (Inl e')
      with Inr r f c d show ?thesis
        by (auto simp: cut_pop_def key_error_def index_error_def split: if_splits)
    next
      case (Inr res)
      with \<open>cut_traverse data sep path = Inr r\<close> r f show ?thesis
        by (simp add: cut_pop_def split: prod.splits)
    qed
  qed
qed

theorem default_none_reraises_witness:
  "cut_get (PDict []) ''.'' ''a'' PNone = Inl (Wrapped KeyError (Key ''a'') ''a'')
   \<and> cut_get (PDict []) ''.'' ''a'' (PBool False) = Inr (PBool False)
   \<and> cut_pop (PDict []) ''.'' ''a'' (PInt 0) = Inr (PDict [], PInt 0)"
proof -
  have g: "cut_getitem (PDict []) ''.'' ''a'' = Inl (Wrapped KeyError (Key ''a'') ''a'')"
    by code_simp
  have p: "cut_pop (PDict []) ''.'' ''a'' PNone = Inl (Wrapped KeyError (Key ''a'') ''a'')"
    by code_simp
  note t = default_none_reraises [of "PDict []" "''.''" "''a''" "Wrapped KeyError (Key ''a'') ''a''"]
  from t [of PNone] g have "cut_get (PDict []) ''.'' ''a'' PNone = Inl (Wrapped KeyError (Key ''a'') ''a'')"
    by simp
  moreover from t [of "PBool False"] g
  have "cut_get (PDict []) ''.'' ''a'' (PBool False) = Inr (PBool False)" by simp
  moreover from t [of "PInt 0"] p
  have "cut_pop (PDict []) ''.'' ''a'' (PInt 0) = Inr (PDict [], PInt 0)" by simp
  ultimately show ?thesis by blast
qed

subsection \<open>Reading what was written\<close>

lemma norm_index_bound: "norm_index n i = Some j \<Longrightarrow> j < n"
  by (auto simp: norm_index_def split: if_splits)

lemma getitem_of_str: "py_getitem (PStr s) k = Inr v \<Longrightarrow> \<exists>c. v = PStr c"
  by (cases k) (auto split: option.splits)

lemma traverse_of_str: "traverse (PStr s) keys path = Inr item \<Longrightarrow> \<exists>c. item = PStr c"
proof (induction keys arbitrary: s)
  case Nil
  then show ?case by auto
next
  case (Cons k keys)
  then obtain v where v: "py_getitem (PStr s) k = Inr v" and t: "traverse v keys path = Inr item"
    by (auto split: sum.splits if_splits)
  from v obtain c where "v = PStr c" using getitem_of_str by blast
  with t Cons.IH show ?case by blast
qed

lemma getitem_after_setitem: "py_setitem v k x = Inr v' \<Longrightarrow> py_getitem v' k = Inr x"
proof (cases v)
  case (PDict d)
  assume "py_setitem v k x = Inr v'"
  with PDict show ?thesis by (auto simp: update_conv')
next
  case (PList xs)
  assume a: "py_setitem v k x = Inr v'"
  show ?thesis
  proof (cases k)
    case (Key n)
    with a PList show ?thesis by simp
  next
    case (Index i)
    with a PList obtain j where j: "norm_index (length xs) i = Some j"
      and v': "v' = PList (xs[j := x])"
      by (auto split: option.splits)
    from j have "j < length xs" by (rule norm_index_bound)
    with j v' Index show ?thesis by simp
  qed
qed auto

lemma setitem_where_getitem:
  "py_getitem v k = Inr child \<Longrightarrow> \<forall>s. v \<noteq> PStr s \<Longrightarrow> \<exists>v'. py_setitem v k x = Inr v'"
  by (cases v; cases k) (auto split: option.splits)

lemma traverse_store:
  "traverse v keys path = Inr item \<Longrightarrow> \<forall>s. item \<noteq> PStr s \<Longrightarrow>
   traverse (store v keys new) keys path = Inr new"
proof (induction keys arbitrary: v)
  case Nil
  then show ?case by simp
next
  case (Cons k keys)
  from Cons.prems(1) obtain child where c: "py_getitem v k = Inr child"
    and t: "traverse child keys path = Inr item"
    by (auto split: sum.splits if_splits)
  have nostr: "\<forall>s. v \<noteq> PStr s"
  proof (intro allI notI)
    fix s assume "v = PStr s"
    with Cons.prems(1) obtain c' where "item = PStr c'" using traverse_of_str by blast
    with Cons.prems(2) show False by blast
  qed
  then obtain v' where s: "py_setitem v k (store child keys new) = Inr v'"
    using setitem_where_getitem [OF c] by blast
  then have g: "py_getitem v' k = Inr (store child keys new)" by (rule getitem_after_setitem)
  from t Cons.prems(2) have "traverse (store child keys new) keys path = Inr new"
    by (rule Cons.IH)
  with c s g show ?case by simp
qed

text \<open>
  Claim C9. Whenever \<open>__setitem__\<close> succeeds on a path, \<open>__getitem__\<close> with the same path
  on the data it leaves returns the value that was written.
\<close>

theorem read_after_write:
  assumes "cut_setitem data sep path v = Inr data'"
  shows "cut_getitem data' sep path = Inr v"
proof -
  from assms obtain ks where ks: "split_path path sep = Inr ks"
    by (auto simp: cut_setitem_def split: sum.splits)
  with assms obtain keys last_key where u: "unpack_last ks = Inr (keys, last_key)"
    by (auto simp: cut_setitem_def split: sum.splits)
  with ks assms obtain item where t: "traverse data keys path = Inr item"
    by (auto simp: cut_setitem_def split: sum.splits)
  with ks u assms obtain item' where s: "py_setitem item last_key v = Inr item'"
    and d: "data' = store data keys item'"
    by (auto simp: cut_setitem_def split: sum.splits if_splits)
  from s have "\<forall>c. item \<noteq> PStr c" by auto
  with t have "traverse (store data keys item') keys path = Inr item'"
    by (rule traverse_store)
  moreover from s have "py_getitem item' last_key = Inr v" by (rule getitem_after_setitem)
  ultimately show ?thesis using ks u d by (simp add: cut_getitem_def)
qed

theorem read_after_write_witness:
  "cut_setitem (PDict [(Key ''pokemon'', PList [PDict [(Key ''level'', PInt 1)]])])
       ''.'' ''pokemon[-1].level'' (PInt 666)
     = Inr (PDict [(Key ''pokemon'', PList [PDict [(Key ''level'', PInt 666)]])])
   \<and> cut_getitem (PDict [(Key ''pokemon'', PList [PDict [(Key ''level'', PInt 666)]])])
       ''.'' ''pokemon[-1].level'' = Inr (PInt 666)"
proof -
  have s: "cut_setitem (PDict [(Key ''pokemon'', PList [PDict [(Key ''level'', PInt 1)]])])
       ''.'' ''pokemon[-1].level'' (PInt 666)
     = Inr (PDict [(Key ''pokemon'', PList [PDict [(Key ''level'', PInt 666)]])])"
    by code_simp
  from read_after_write [OF s] s show ?thesis by simp
qed

subsection \<open>Where a malformed path is detected\<close>

















subsection \<open>The step application rule\<close>

lemma norm_index_in_range:
  "norm_index n i = (if in_range n i then Some (nat (i mod int n)) else None)"
proof (cases "0 \<le> i")
  case True
  then show ?thesis by (auto simp: norm_index_def in_range_def)
next
  case False
  then have neg: "i < 0" by simp
  show ?thesis
  proof (cases "- int n \<le> i")
    case True
    with neg have "i mod int n = int n + i"
      by (smt (verit) mod_add_self1 mod_pos_pos_trivial)
    with neg True show ?thesis by (simp add: norm_index_def in_range_def)
  next
    case False
    with neg show ?thesis by (simp add: norm_index_def in_range_def)
  qed
qed

lemma getitem_by_rule: "outcome (py_getitem v k) = apply_step v k"
  by (cases v; cases k) (auto simp: outcome_def norm_index_in_range split: option.splits)

lemma traverse_by_rule: "outcome (traverse v keys path) = resolve_by_rule v keys"
proof (induction keys arbitrary: v)
  case Nil
  then show ?case by (simp add: outcome_def)
next
  case (Cons k keys)
  show ?case
  proof (cases "py_getitem v k")
    case (Inl e)
    then have "apply_step v k = Inl (kind_of_class (exc_class_of e))"
      using getitem_by_rule [of v k] by (simp add: outcome_def)
    with Inl show ?thesis by (auto simp: outcome_def)
  next
    case (Inr v')
    then have "apply_step v k = Inr v'"
      using getitem_by_rule [of v k] by (simp add: outcome_def)
    with Inr Cons.IH [of v'] show ?thesis by simp
  qed
qed

lemma resolve_by_rule_snoc:
  "resolve_by_rule v (keys @ [k]) =
     (case resolve_by_rule v keys of Inl f \<Rightarrow> Inl f | Inr item \<Rightarrow> apply_step item k)"
  by (induction keys arbitrary: v) (auto split: sum.splits)

lemma split_indexes_steps: "split_indexes seg = Inr ks \<Longrightarrow> ks \<noteq> []"
  using str_split_nonempty [of "''[''" seg]
  by (auto simp: split_indexes_def split: list.splits if_splits sum.splits)

lemma split_segments_steps: "split_segments segs = Inr ks \<Longrightarrow> segs \<noteq> [] \<Longrightarrow> ks \<noteq> []"
  by (cases segs) (auto split: sum.splits dest: split_indexes_steps)

lemma split_path_steps: "split_path path sep = Inr ks \<Longrightarrow> ks \<noteq> []"
  using str_split_nonempty [of sep path]
  by (auto simp: split_path_def split: if_splits dest: split_segments_steps)

text \<open>
  Claim C2, as stated, fails on the code in the rule for \<open>Index\<close> steps. Against a keyed
  container an \<open>Index\<close> step is a lookup of the integer key and fails with \<open>KeyError\<close>,
  not \<open>TypeError\<close>; against an ordered container the index \<open>-1\<close>, outside \<open>[0, len)\<close>,
  returns the last element; against a string scalar an \<open>Index\<close> step returns a character.
\<close>

theorem index_step_not_type_checked:
  "cut_getitem (PDict [(Key ''a'', PDict [(Key ''b'', PInt 1)])]) ''.'' ''a[0]''
     = Inl (Wrapped KeyError (Index 0) ''a[0]'')
   \<and> cut_getitem (PDict [(Key ''a'', PList [PInt 10, PInt 20])]) ''.'' ''a[-1]'' = Inr (PInt 20)
   \<and> cut_getitem (PDict [(Key ''a'', PStr ''xyz'')]) ''.'' ''a[0]'' = Inr (PStr ''x'')"
  by (intro conjI; code_simp)

text \<open>
  Claim C2, amended. Whatever the data and the path the parser accepts, the outcome of
  \<open>__getitem__\<close> (the value, or the kind of the failure) is the one obtained by applying
  the rule \<open>apply_step\<close> to every step in order, intermediate and final alike: a \<open>Key\<close> or
  \<open>Index\<close> step against a keyed container is a lookup and fails with \<open>MissingKey\<close> when
  absent; an \<open>Index\<close> step against an ordered container (or a string) returns the element
  for \<open>-len \<le> i < len\<close> and fails with \<open>IndexOutOfRange\<close> otherwise; a \<open>Key\<close> step
  against an ordered container or a scalar, and an \<open>Index\<close> step against a scalar that is
  not a string, fail with \<open>TypeMismatch\<close>. So \<open>a.c\<close> on \<open>{"a": {"b": 1}}\<close> fails with
  the \<open>KeyError\<close> that names \<open>c\<close>, and \<open>a[0]\<close> on \<open>{"a": 1}\<close> fails with \<open>TypeMismatch\<close>.
\<close>

theorem getitem_follows_step_rule:
  "(split_path path sep = Inr steps \<longrightarrow>
      outcome (cut_getitem data sep path) = resolve_by_rule data steps)
   \<and> cut_getitem (PDict [(Key ''a'', PDict [(Key ''b'', PInt 1)])]) ''.'' ''a.c''
       = Inl (Wrapped KeyError (Key ''c'') ''a.c'')
   \<and> outcome (cut_getitem (PDict [(Key ''a'', PInt 1)]) ''.'' ''a[0]'') = Inl TypeMismatch"
proof (intro conjI impI)
  assume p: "split_path path sep = Inr steps"
  show "outcome (cut_getitem data sep path) = resolve_by_rule data steps"
  proof (cases "steps = []")
    case True
    with p show ?thesis using split_path_steps by blast
  next
    case False
    then have u: "unpack_last steps = Inr (butlast steps, last steps)"
      by (simp add: unpack_last_def)
    from False have s: "steps = butlast steps @ [last steps]" by simp
    have r: "resolve_by_rule data steps =
        (case resolve_by_rule data (butlast steps) of
           Inl f \<Rightarrow> Inl f | Inr item \<Rightarrow> apply_step item (last steps))"
      using resolve_by_rule_snoc [of data "butlast steps" "last steps"] s by simp
    show ?thesis
    proof (cases "traverse data (butlast steps) path")
      case (Inl e)
      then have "resolve_by_rule data (butlast steps) = Inl (kind_of_class (exc_class_of e))"
        using traverse_by_rule [of data "butlast steps" path] by (simp add: outcome_def)
      with Inl p u r show ?thesis by (simp add: cut_getitem_def outcome_def)
    next
      case (Inr item)
      then have t: "resolve_by_rule data (butlast steps) = Inr item"
        using traverse_by_rule [of data "butlast steps" path] by (simp add: outcome_def)
      have "outcome (cut_getitem data sep path) = outcome (py_getitem item (last steps))"
        using p u Inr
        by (auto simp: cut_getitem_def outcome_def key_error_def index_error_def
                 split: sum.splits)
      with t r show ?thesis by (simp add: getitem_by_rule)
    qed
  qed
next
  show "cut_getitem (PDict [(Key ''a'', PDict [(Key ''b'', PInt 1)])]) ''.'' ''a.c''
       = Inl (Wrapped KeyError (Key ''c'') ''a.c'')"
    by code_simp
next
  show "outcome (cut_getitem (PDict [(Key ''a'', PInt 1)]) ''.'' ''a[0]'') = Inl TypeMismatch"
    by code_simp
qed

theorem getitem_follows_step_rule_witness:
  "split_path ''a[5].b'' ''.'' = Inr [Key ''a'', Index 5, Key ''b'']
   \<and> outcome (cut_getitem (PDict [(Key ''a'', PList [PInt 10, PInt 20])]) ''.'' ''a[5].b'')
       = Inl IndexOutOfRange"
proof -
  have p: "split_path ''a[5].b'' ''.'' = Inr [Key ''a'', Index 5, Key ''b'']" by code_simp
  have r: "resolve_by_rule (PDict [(Key ''a'', PList [PInt 10, PInt 20])])
             [Key ''a'', Index 5, Key ''b''] = Inl IndexOutOfRange"
    by (simp add: in_range_def)
  from p r getitem_follows_step_rule
     [of "''a[5].b''" "''.''" "[Key ''a'', Index 5, Key ''b'']"
         "PDict [(Key ''a'', PList [PInt 10, PInt 20])]"]
  show ?thesis by simp
qed

subsection \<open>\<open>setdefault\<close>: what the walk creates\<close>

lemma update_absent: "map_of d k = None \<Longrightarrow> AList.update k v d = d @ [(k, v)]"
  by (induction d) (auto split: if_splits)

lemma str_split_bracket:
  assumes "CHR ''['' \<in> set seg"
  shows "\<exists>name p ps. str_split ''['' seg = name # p # ps"
proof -
  from assms obtain s1 rest where seg: "seg = s1 @ CHR ''['' # rest" and "CHR ''['' \<notin> set s1"
    by (auto dest: split_list_first)
  then have a: "str_split ''['' seg = s1 # split_from ''['' [] rest"
    using split_from_until [of "CHR ''[''" s1 "[]" rest] by (simp add: str_split_def)
  obtain p ps where b: "split_from ''['' [] rest = p # ps"
    using split_from_nonempty [of "''[''" "[]" rest] by (cases "split_from ''['' [] rest") auto
  from a b show ?thesis by simp
qed

lemma traverse_list_plain:
  "CHR ''['' \<notin> set seg \<Longrightarrow> traverse_list parent seg path = Inr (parent, Key seg)"
  by (simp add: traverse_list_def str_split_def split_from_absent)

lemma traverse_snoc:
  "traverse v (ks @ [k]) q =
     (case traverse v ks q of
        Inl e \<Rightarrow> Inl e
      | Inr item \<Rightarrow> traverse item [k] q)"
  by (induction ks arbitrary: v) (auto split: sum.splits)

lemma getitem_other_slot:
  assumes "py_setitem v j x = Inr v'" "py_getitem v j = Inr child" "py_getitem v k = Inr c"
  shows "(py_getitem v' k = Inr x \<and> c = child) \<or> py_getitem v' k = Inr c"
proof (cases v)
  case (PDict d)
  with assms show ?thesis by (cases "k = j") (auto simp: update_conv' split: option.splits)
next
  case (PList xs)
  show ?thesis
  proof (cases j)
    case (Key n)
    with assms PList show ?thesis by simp
  next
    case j: (Index ji)
    show ?thesis
    proof (cases k)
      case (Key n)
      with assms PList show ?thesis by simp
    next
      case k: (Index ki)
      from assms(1) PList j obtain jn where jn: "norm_index (length xs) ji = Some jn"
        and v': "v' = PList (xs[jn := x])"
        by (auto split: option.splits)
      from assms(3) PList k obtain kn where kn: "norm_index (length xs) ki = Some kn"
        and c: "c = xs ! kn"
        by (auto split: option.splits)
      from assms(2) PList j jn have child: "child = xs ! jn" by simp
      from jn have "jn < length xs" by (rule norm_index_bound)
      with v' k kn c child show ?thesis by (cases "kn = jn") simp_all
    qed
  qed
qed (use assms in auto)

lemma store_new_key_keeps_lists:
  "traverse data L q = Inr (PDict d) \<Longrightarrow> map_of d k = None \<Longrightarrow>
   traverse data loc q = Inr (PList xs) \<Longrightarrow>
   \<exists>ys. traverse (store data L (PDict (AList.update k c d))) loc q = Inr (PList ys)
        \<and> length ys = length xs"
proof (induction L arbitrary: data loc)
  case Nil
  then have data: "data = PDict d" by simp
  show ?case
  proof (cases loc)
    case Nil
    with data Nil.prems(3) show ?thesis by simp
  next
    case (Cons k1 ks)
    with data Nil.prems(3) obtain c1 where c1: "map_of d k1 = Some c1"
      and t: "traverse c1 ks q = Inr (PList xs)"
      by (auto split: option.splits sum.splits if_splits)
    from c1 Nil.prems(2) have "k1 \<noteq> k" by auto
    with c1 have "map_of (AList.update k c d) k1 = Some c1" by (simp add: update_conv')
    with t Cons show ?thesis by simp
  qed
next
  case (Cons j L')
  let ?new = "PDict (AList.update k c d)"
  from Cons.prems(1) obtain child where ch: "py_getitem data j = Inr child"
    and tc: "traverse child L' q = Inr (PDict d)"
    by (auto split: sum.splits if_splits)
  have nostr: "\<forall>s. data \<noteq> PStr s"
  proof (intro allI notI)
    fix s assume "data = PStr s"
    with Cons.prems(1) obtain c' where "PDict d = PStr c'" using traverse_of_str by blast
    then show False by simp
  qed
  then obtain data' where set: "py_setitem data j (store child L' ?new) = Inr data'"
    using setitem_where_getitem [OF ch] by blast
  with ch have st: "store data (j # L') ?new = data'" by simp
  show ?case
  proof (cases loc)
    case Nil
    with Cons.prems(3) have "data = PList xs" by simp
    with set have "\<exists>ys. data' = PList ys \<and> length ys = length xs"
      by (cases j) (auto split: option.splits)
    with Nil st show ?thesis by auto
  next
    case (Cons k1 ks)
    with Cons.prems(3) obtain c1 where c1: "py_getitem data k1 = Inr c1"
      and t1: "traverse c1 ks q = Inr (PList xs)"
      by (auto split: sum.splits if_splits)
    from getitem_other_slot [OF set ch c1]
    show ?thesis
    proof
      assume a: "py_getitem data' k1 = Inr (store child L' ?new) \<and> c1 = child"
      with t1 have "traverse child ks q = Inr (PList xs)" by simp
      from Cons.IH [OF tc Cons.prems(2) this]
      obtain ys where "traverse (store child L' ?new) ks q = Inr (PList ys)"
        and "length ys = length xs" by blast
      with a st Cons show ?thesis by simp
    next
      assume "py_getitem data' k1 = Inr c1"
      with t1 st Cons show ?thesis by simp
    qed
  qed
qed

lemma node_getitem_consistent:
  "traverse data (fst p) q = Inr (snd p) \<Longrightarrow> node_getitem p k = Inr p' \<Longrightarrow>
   traverse data (fst p') q = Inr (snd p')"
  by (auto simp: node_getitem_def traverse_snoc split: sum.splits)

lemma traverse_indexes_consistent:
  "traverse data (fst p) q = Inr (snd p) \<Longrightarrow> traverse_indexes p ps path = Inr p' \<Longrightarrow>
   traverse data (fst p') q = Inr (snd p')"
proof (induction ps arbitrary: p)
  case Nil
  then show ?case by simp
next
  case (Cons s ps)
  from Cons.prems(2) obtain i p1 where "node_getitem p (Index i) = Inr p1"
    and "traverse_indexes p1 ps path = Inr p'"
    by (auto split: option.splits sum.splits if_splits)
  with Cons.prems(1) Cons.IH [of p1] show ?case
    using node_getitem_consistent by blast
qed

lemma traverse_list_consistent:
  assumes "traverse data (fst parent) q = Inr (snd parent)"
    and "traverse_list parent seg path = Inr (p, k)"
  shows "traverse data (fst p) q = Inr (snd p)"
proof (cases "str_split ''['' seg")
  case Nil
  with assms(2) show ?thesis by (simp add: traverse_list_def)
next
  case (Cons name ps)
  show ?thesis
  proof (cases "ps = []")
    case True
    with Cons assms show ?thesis by (simp add: traverse_list_def)
  next
    case False
    with Cons assms(2) obtain p1 where g: "node_getitem parent (Key name) = Inr p1"
      and t: "traverse_indexes p1 (butlast ps) path = Inr p"
      by (auto simp: traverse_list_def split: sum.splits option.splits if_splits)
    from assms(1) g have "traverse data (fst p1) q = Inr (snd p1)"
      by (rule node_getitem_consistent)
    then show ?thesis using t by (rule traverse_indexes_consistent)
  qed
qed

lemma key_error_source:
  "py_getitem v k = Inl e \<Longrightarrow> exc_class_of e = KeyError \<Longrightarrow>
   \<exists>d. v = PDict d \<and> map_of d k = None"
  by (cases v; cases k) (auto split: option.splits)

lemma setdefault_walk_keeps_lists:
  "traverse data (fst parent) q = Inr (snd parent) \<Longrightarrow>
   setdefault_walk data parent segs path = (data', r) \<Longrightarrow>
   (\<forall>loc xs. traverse data loc q = Inr (PList xs) \<longrightarrow>
       (\<exists>ys. traverse data' loc q = Inr (PList ys) \<and> length ys = length xs))
   \<and> (\<forall>parent'. r = Inr parent' \<longrightarrow> traverse data' (fst parent') q = Inr (snd parent'))"
proof (induction segs arbitrary: data parent)
  case Nil
  then show ?case by auto
next
  case (Cons seg rest)
  show ?case
  proof (cases "traverse_list parent seg path")
    case (Inl e)
    with Cons.prems(2) show ?thesis by auto
  next
    case (Inr res)
    obtain p k where res: "res = (p, k)" by (cases res)
    from Cons.prems(1) Inr res have cp: "traverse data (fst p) q = Inr (snd p)"
      using traverse_list_consistent by blast
    show ?thesis
    proof (cases "node_getitem p k")
      case g: (Inr p')
      from cp g have "traverse data (fst p') q = Inr (snd p')" by (rule node_getitem_consistent)
      moreover from Inr res g Cons.prems(2)
      have "setdefault_walk data p' rest path = (data', r)" by simp
      ultimately show ?thesis by (rule Cons.IH)
    next
      case g: (Inl e)
      then have pe: "py_getitem (snd p) k = Inl e"
        by (auto simp: node_getitem_def split: sum.splits)
      show ?thesis
      proof (cases "exc_class_of e = KeyError")
        case False
        with Inr res g Cons.prems(2) show ?thesis by (auto split: if_splits)
      next
        case True
        with pe obtain d where d: "snd p = PDict d" and k: "map_of d k = None"
          using key_error_source by blast
        let ?pv = "PDict (AList.update k (PDict []) d)"
        let ?data1 = "store data (fst p) ?pv"
        from Inr res g True d Cons.prems(2)
        have w: "setdefault_walk ?data1 (fst p @ [k], PDict []) rest path = (data', r)"
          by simp
        from cp d have cd: "traverse data (fst p) q = Inr (PDict d)" by simp
        then have "traverse ?data1 (fst p) q = Inr ?pv" by (rule traverse_store) simp
        then have c1: "traverse ?data1 (fst (fst p @ [k], PDict [])) q
                         = Inr (snd (fst p @ [k], PDict []))"
          by (simp add: traverse_snoc update_conv')
        from Cons.IH [OF c1 w]
        have ih1: "\<forall>loc xs. traverse ?data1 loc q = Inr (PList xs) \<longrightarrow>
                     (\<exists>ys. traverse data' loc q = Inr (PList ys) \<and> length ys = length xs)"
          and ih2: "\<forall>parent'. r = Inr parent' \<longrightarrow>
                     traverse data' (fst parent') q = Inr (snd parent')"
          by blast+
        have "\<forall>loc xs. traverse data loc q = Inr (PList xs) \<longrightarrow>
                (\<exists>ys. traverse data' loc q = Inr (PList ys) \<and> length ys = length xs)"
        proof (intro allI impI)
          fix loc xs assume "traverse data loc q = Inr (PList xs)"
          from store_new_key_keeps_lists [OF cd k this]
          obtain ys where "traverse ?data1 loc q = Inr (PList ys)" and "length ys = length xs"
            by blast
          with ih1 show "\<exists>ys. traverse data' loc q = Inr (PList ys) \<and> length ys = length xs"
            by fastforce
        qed
        with ih2 show ?thesis by blast
      qed
    qed
  qed
qed

lemma setdefault_keeps_lists:
  assumes "cut_setdefault data sep path dflt = (data', r)"
    and "traverse data loc q = Inr (PList xs)"
  shows "\<exists>ys. traverse data' loc q = Inr (PList ys) \<and> length ys = length xs"
proof (cases "sep = []")
  case True
  with assms show ?thesis by (simp add: cut_setdefault_def)
next
  case False
  let ?segs = "str_split sep path"
  have u: "unpack_last ?segs = Inr (butlast ?segs, last ?segs)"
    by (simp add: unpack_last_def str_split_nonempty)
  obtain data1 r1 where w: "setdefault_walk data ([], data) (butlast ?segs) path = (data1, r1)"
    by (cases "setdefault_walk data ([], data) (butlast ?segs) path")
  have "traverse data (fst ([], data)) q = Inr (snd ([], data))" by simp
  from setdefault_walk_keeps_lists [OF this w]
  have k1: "\<forall>loc xs. traverse data loc q = Inr (PList xs) \<longrightarrow>
              (\<exists>ys. traverse data1 loc q = Inr (PList ys) \<and> length ys = length xs)"
    and c1: "\<forall>parent'. r1 = Inr parent' \<longrightarrow> traverse data1 (fst parent') q = Inr (snd parent')"
    by blast+
  from k1 assms(2) obtain ys where ys: "traverse data1 loc q = Inr (PList ys)"
    and len: "length ys = length xs" by blast
  show ?thesis
  proof (cases r1)
    case (Inl e)
    with assms(1) False u w have "data' = data1" by (simp add: cut_setdefault_def)
    with ys len show ?thesis by blast
  next
    case (Inr parent)
    with c1 have cp: "traverse data1 (fst parent) q = Inr (snd parent)" by blast
    show ?thesis
    proof (cases "traverse_list parent (last ?segs) path")
      case (Inl e)
      with assms(1) False u w \<open>r1 = Inr parent\<close> have "data' = data1"
        by (simp add: cut_setdefault_def)
      with ys len show ?thesis by blast
    next
      case t: (Inr res)
      obtain p k where res: "res = (p, k)" by (cases res)
      from cp t res have cpp: "traverse data1 (fst p) q = Inr (snd p)"
        using traverse_list_consistent by blast
      show ?thesis
      proof (cases "py_getitem (snd p) k")
        case g: (Inr v)
        with assms(1) False u w \<open>r1 = Inr parent\<close> t res have "data' = data1"
          by (simp add: cut_setdefault_def)
        with ys len show ?thesis by blast
      next
        case g: (Inl e)
        show ?thesis
        proof (cases "exc_class_of e = KeyError")
          case False
          with assms(1) \<open>sep \<noteq> []\<close> u w \<open>r1 = Inr parent\<close> t res g have "data' = data1"
            by (auto simp: cut_setdefault_def split: if_splits)
          with ys len show ?thesis by blast
        next
          case True
          with g obtain d where d: "snd p = PDict d" and k: "map_of d k = None"
            using key_error_source by blast
          with assms(1) \<open>sep \<noteq> []\<close> u w \<open>r1 = Inr parent\<close> t res g True
          have "data' = store data1 (fst p) (PDict (AList.update k dflt d))"
            by (simp add: cut_setdefault_def)
          moreover from cpp d have "traverse data1 (fst p) q = Inr (PDict d)" by simp
          from store_new_key_keeps_lists [OF this k ys]
          obtain zs where "traverse (store data1 (fst p) (PDict (AList.update k dflt d))) loc q
                             = Inr (PList zs)" and "length zs = length ys"
            by blast
          ultimately show ?thesis using len by auto
        qed
      qed
    qed
  qed
qed

text \<open>
  Claim C6, as stated, fails on the code: a missing key on an intermediate \<open>Key\<close> step
  is not always created. For the path \<open>a[0].b\<close> on \<open>{}\<close> the missing key \<open>a\<close> makes
  \<open>setdefault\<close> raise the \<open>KeyError\<close> of \<open>_traverse_list\<close>, and the data stays empty.
\<close>

theorem setdefault_bracket_segment_not_created:
  "cut_setdefault (PDict []) ''.'' ''a[0].b'' (PInt 7)
     = (PDict [], Inl (Wrapped KeyError (Key ''a'') ''a[0].b''))"
  by code_simp

text \<open>
  Claim C6, amended. On \<open>{}\<close> with the path \<open>a.b.c\<close>, the walk of \<open>setdefault\<close> creates
  empty dictionaries at \<open>a\<close> and \<open>a.b\<close> and ends on the one at \<open>a.b\<close>; the default is
  stored there under \<open>c\<close> and returned. In every walk of \<open>setdefault\<close>: a segment
  written without brackets whose key is missing from the dictionary reached gets an empty
  dictionary, into which the walk descends; a segment written with brackets whose key
  is missing is a failure (the \<open>KeyError\<close> built by \<open>key_error\<close>), as is every error of
  \<open>_traverse_list\<close>; an index out of range on an intermediate step is a failure (the
  \<open>IndexError\<close> built by \<open>index_error\<close>) that leaves the data as it is; and whatever the
  outcome of \<open>setdefault\<close>, every list of the data is still a list of the same length at
  the same place afterwards.
\<close>

theorem setdefault_creates_plain_segments:
  "cut_setdefault (PDict []) ''.'' ''a.b.c'' dflt
     = (PDict [(Key ''a'', PDict [(Key ''b'', PDict [(Key ''c'', dflt)])])], Inr dflt)
   \<and> setdefault_walk (PDict []) ([], PDict []) [''a'', ''b''] ''a.b.c''
     = (PDict [(Key ''a'', PDict [(Key ''b'', PDict [])])], Inr ([Key ''a'', Key ''b''], PDict []))
   \<and> (CHR ''['' \<notin> set seg \<longrightarrow> snd parent = PDict d \<longrightarrow> map_of d (Key seg) = None \<longrightarrow>
        setdefault_walk data parent (seg # rest) path
          = setdefault_walk (store data (fst parent) (PDict (d @ [(Key seg, PDict [])])))
              (fst parent @ [Key seg], PDict []) rest path)
   \<and> (CHR ''['' \<in> set seg \<longrightarrow> snd parent = PDict d \<longrightarrow>
        map_of d (Key (hd (str_split ''['' seg))) = None \<longrightarrow>
        setdefault_walk data parent (seg # rest) path
          = (data, Inl (Wrapped KeyError (Key (hd (str_split ''['' seg))) path)))
   \<and> (traverse_list parent seg path = Inl e \<longrightarrow>
        setdefault_walk data parent (seg # rest) path = (data, Inl e))
   \<and> (traverse_list parent seg path = Inr (p, Index i) \<longrightarrow> snd p = PList xs \<longrightarrow>
        \<not> in_range (length xs) i \<longrightarrow>
        setdefault_walk data parent (seg # rest) path
          = (data, Inl (Wrapped IndexError (Index i) path)))
   \<and> (cut_setdefault data sep path dflt = (data', r) \<longrightarrow>
        traverse data loc q = Inr (PList ys) \<longrightarrow>
        (\<exists>zs. traverse data' loc q = Inr (PList zs) \<and> length zs = length ys))"
proof (intro conjI impI)
  have w: "setdefault_walk (PDict []) ([], PDict []) [''a'', ''b''] ''a.b.c''
     = (PDict [(Key ''a'', PDict [(Key ''b'', PDict [])])], Inr ([Key ''a'', Key ''b''], PDict []))"
    by code_simp
  then show "setdefault_walk (PDict []) ([], PDict []) [''a'', ''b''] ''a.b.c''
     = (PDict [(Key ''a'', PDict [(Key ''b'', PDict [])])], Inr ([Key ''a'', Key ''b''], PDict []))" .
  have s: "str_split ''.'' ''a.b.c'' = [''a'', ''b'', ''c'']" by code_simp
  have t: "traverse_list ([Key ''a'', Key ''b''], PDict []) ''c'' ''a.b.c''
             = Inr (([Key ''a'', Key ''b''], PDict []), Key ''c'')"
    by code_simp
  show "cut_setdefault (PDict []) ''.'' ''a.b.c'' dflt
     = (PDict [(Key ''a'', PDict [(Key ''b'', PDict [(Key ''c'', dflt)])])], Inr dflt)"
    by (simp add: cut_setdefault_def s unpack_last_def w t del: setdefault_walk.simps)
next
  assume seg: "CHR ''['' \<notin> set seg" and d: "snd parent = PDict d"
    and k: "map_of d (Key seg) = None"
  from seg have "traverse_list parent seg path = Inr (parent, Key seg)"
    by (rule traverse_list_plain)
  with d k show "setdefault_walk data parent (seg # rest) path
          = setdefault_walk (store data (fst parent) (PDict (d @ [(Key seg, PDict [])])))
              (fst parent @ [Key seg], PDict []) rest path"
    by (simp add: node_getitem_def update_absent)
next
  assume seg: "CHR ''['' \<in> set seg" and d: "snd parent = PDict d"
    and k: "map_of d (Key (hd (str_split ''['' seg))) = None"
  from seg obtain name q qs where "str_split ''['' seg = name # q # qs"
    using str_split_bracket by blast
  with d k have "traverse_list parent seg path = Inl (Wrapped KeyError (Key name) path)"
    by (simp add: traverse_list_def node_getitem_def key_error_def)
  with \<open>str_split ''['' seg = name # q # qs\<close>
  show "setdefault_walk data parent (seg # rest) path
          = (data, Inl (Wrapped KeyError (Key (hd (str_split ''['' seg))) path))"
    by simp
next
  assume "traverse_list parent seg path = Inl e"
  then show "setdefault_walk data parent (seg # rest) path = (data, Inl e)" by simp
next
  assume t: "traverse_list parent seg path = Inr (p, Index i)" and l: "snd p = PList xs"
    and r: "\<not> in_range (length xs) i"
  from l r have "node_getitem p (Index i) = Inl (Builtin IndexError None)"
    by (simp add: node_getitem_def norm_index_in_range)
  with t show "setdefault_walk data parent (seg # rest) path
          = (data, Inl (Wrapped IndexError (Index i) path))"
    by (simp add: index_error_def)
next
  assume "cut_setdefault data sep path dflt = (data', r)"
    and "traverse data loc q = Inr (PList ys)"
  then show "\<exists>zs. traverse data' loc q = Inr (PList zs) \<and> length zs = length ys"
    by (rule setdefault_keeps_lists)
qed

theorem setdefault_creates_plain_segments_witness:
  "setdefault_walk (PDict []) ([], PDict []) [''a''] ''a.b''
     = (PDict [(Key ''a'', PDict [])], Inr ([Key ''a''], PDict []))
   \<and> setdefault_walk (PDict []) ([], PDict []) [''a[0]''] ''a[0].b''
     = (PDict [], Inl (Wrapped KeyError (Key ''a'') ''a[0].b''))
   \<and> setdefault_walk (PDict [(Key ''p'', PList [PInt 1])])
        ([], PDict [(Key ''p'', PList [PInt 1])]) [''p[3]''] ''p[3].b''
     = (PDict [(Key ''p'', PList [PInt 1])], Inl (Wrapped IndexError (Index 3) ''p[3].b''))
   \<and> (\<exists>zs. traverse (PDict [(Key ''p'', PList [PDict [(Key ''b'', PInt 7)]])]) [Key ''p''] ''''
              = Inr (PList zs) \<and> length zs = length [PDict []])"
proof -
  let ?e = "PDict []"
  let ?d = "PDict [(Key ''p'', PList [PInt 1])]"
  let ?l = "PDict [(Key ''p'', PList [PDict []])]"
  have a: "CHR ''['' \<notin> set ''a''" by simp
  have b: "CHR ''['' \<in> set ''a[0]''" by simp
  have h: "hd (str_split ''['' ''a[0]'') = ''a''" by code_simp
  have t: "traverse_list ([], ?e) ''a[0]'' ''a[0].b'' = Inl (Wrapped KeyError (Key ''a'') ''a[0].b'')"
    by code_simp
  have i: "traverse_list ([], ?d) ''p[3]'' ''p[3].b'' = Inr (([Key ''p''], PList [PInt 1]), Index 3)"
    by code_simp
  have r: "\<not> in_range (length [PInt 1]) 3" by (simp add: in_range_def)
  have s: "cut_setdefault ?l ''.'' ''p[0].b'' (PInt 7)
             = (PDict [(Key ''p'', PList [PDict [(Key ''b'', PInt 7)]])], Inr (PInt 7))"
    by code_simp
  have g: "traverse ?l [Key ''p''] '''' = Inr (PList [PDict []])" by simp
  have "setdefault_walk ?e ([], ?e) [''a''] ''a.b'' = (PDict [(Key ''a'', PDict [])], Inr ([Key ''a''], PDict []))"
    using a setdefault_creates_plain_segments
            [where seg = "''a''" and parent = "([], ?e)" and d = "[]" and data = ?e
               and rest = "[]" and path = "''a.b''"]
    by simp
  moreover have "setdefault_walk ?e ([], ?e) [''a[0]''] ''a[0].b''
                   = (?e, Inl (Wrapped KeyError (Key ''a'') ''a[0].b''))"
    using b h t setdefault_creates_plain_segments
            [where seg = "''a[0]''" and parent = "([], ?e)" and d = "[]" and data = ?e
               and rest = "[]" and path = "''a[0].b''"
               and e = "Wrapped KeyError (Key ''a'') ''a[0].b''"]
    by simp
  moreover have "setdefault_walk ?d ([], ?d) [''p[3]''] ''p[3].b''
                   = (?d, Inl (Wrapped IndexError (Index 3) ''p[3].b''))"
    using i r setdefault_creates_plain_segments
            [where seg = "''p[3]''" and parent = "([], ?d)" and data = ?d
               and rest = "[]" and path = "''p[3].b''"
               and p = "([Key ''p''], PList [PInt 1])" and i = 3 and xs = "[PInt 1]"]
    by simp
  moreover have "\<exists>zs. traverse (PDict [(Key ''p'', PList [PDict [(Key ''b'', PInt 7)]])]) [Key ''p''] ''''
              = Inr (PList zs) \<and> length zs = length [PDict []]"
    using s g setdefault_creates_plain_segments
            [where data = ?l and sep = "''.''" and path = "''p[0].b''" and dflt = "PInt 7"
               and data' = "PDict [(Key ''p'', PList [PDict [(Key ''b'', PInt 7)]])]"
               and r = "Inr (PInt 7)" and loc = "[Key ''p'']" and q = "''''"
               and ys = "[PDict []]"]
    by blast
  ultimately show ?thesis by blast
qed

subsection \<open>When \<open>__contains__\<close> answers \<open>False\<close>\<close>







end
